theory Spec2Isabelle
  imports Complex_Main
begin

section \<open>Scenes, failures and the call trace\<close>

text \<open>
  The static class \<^verbatim>\<open>SceneManager\<close> drives scene objects through their lifecycle
  methods and talks to a handful of collaborators (\<^verbatim>\<open>Graphics\<close>, \<^verbatim>\<open>Input\<close>,
  \<^verbatim>\<open>AudioManager\<close>, \<^verbatim>\<open>ReactPIXI\<close>, the browser window). A scene class (the
  \<^verbatim>\<open>constructor\<close> of a scene object) is an opaque identity; a scene object carries its
  class, the answers its \<^verbatim>\<open>isReady()\<close> and \<^verbatim>\<open>isBusy()\<close> currently give, and the
  lifecycle methods that currently throw, with the value each one throws.
\<close>

type_synonym scene_class = nat

datatype exn = Error string string | Thrown string

datatype lifecycle = Create | Start | Update | Stop | Terminate | IsReady | IsBusy

record Scene =
  ident :: nat
  constructor_of :: scene_class
  ready :: bool
  busy :: bool
  throwing :: "(lifecycle \<times> exn) list"

text \<open>
  Every call that leaves \<^verbatim>\<open>SceneManager\<close> is recorded, in order, in a trace. A scene
  method that returns is \<open>Call\<close>, one that throws is \<open>Threw\<close>. The two predicates
  \<^verbatim>\<open>isReady()\<close> and \<^verbatim>\<open>isBusy()\<close> are queries and leave no entry. A call of a
  collaborator is recorded when it is made. \<^verbatim>\<open>Graphics.tickStart\<close>, \<^verbatim>\<open>Graphics.render\<close>,
  \<^verbatim>\<open>Graphics.tickEnd\<close> and \<^verbatim>\<open>Input.update\<close> can fail, as set out below; the loading and
  error-printing hooks of \<^verbatim>\<open>Graphics\<close>, \<^verbatim>\<open>AudioManager.stopAll\<close>, \<^verbatim>\<open>ReactPIXI.render\<close>,
  \<^verbatim>\<open>requestAnimationFrame\<close> and \<^verbatim>\<open>window.close\<close> return.
\<close>

datatype event =
    Call nat lifecycle
  | Threw nat lifecycle
  | ReactRender scene_class
  | InputUpdate
  | GraphicsTickStart
  | GraphicsTickEnd
  | GraphicsRender nat
  | StartLoading
  | UpdateLoading
  | EndLoading
  | PrintError string string
  | ConsoleError
  | AudioStopAll
  | RequestAnimationFrame
  | WindowClose

text \<open>
  The static fields of \<^verbatim>\<open>Graphics\<close> that its three per-frame methods read or write.
  \<^verbatim>\<open>_fpsMeter\<close> is null or an FPS meter, given by the calls of it that throw;
  \<^verbatim>\<open>_renderer\<close> is null or a renderer, given by what its \<^verbatim>\<open>render\<close> throws, if
  anything. \<open>renderMillis\<close> is not a field of the class: it is the difference of the two
  \<^verbatim>\<open>Date.now()\<close> samples that \<^verbatim>\<open>Graphics.render\<close> takes around a render.
\<close>

datatype meterCall = MeterTickStart | MeterTick

record Graphics =
  fpsMeter :: "(meterCall \<times> exn) list option"
  renderer :: "exn option option"
  rendered :: bool
  skipCount :: int
  maxSkip :: int
  frameCount :: nat
  renderMillis :: int

text \<open>
  The static fields of the class that the scheduling code reads or writes (the screen and
  box sizes and the background bitmap play no part in it), with the trace beside them.
  Times are exact rationals: \<^verbatim>\<open>_currentTime\<close> in milliseconds, \<^verbatim>\<open>_accumulator\<close> in
  seconds. \<open>graphics\<close> is the state of \<^verbatim>\<open>Graphics\<close>, and \<open>inputThrows\<close> is what
  \<^verbatim>\<open>Input.update()\<close> throws, if it throws.
\<close>

record SceneManager =
  scene :: "Scene option"
  nextScene :: "Scene option"
  stack :: "scene_class list"
  stopped :: bool
  sceneStarted :: bool
  exiting :: bool
  previousClass :: "scene_class option"
  currentTime :: rat
  accumulator :: rat
  events :: "event list"
  graphics :: Graphics
  inputThrows :: "exn option"

definition deltaTime :: rat where
  "deltaTime = 1 / 60"

text \<open>
  \<^verbatim>\<open>Graphics\<close> as \<^verbatim>\<open>Graphics.initialize\<close> leaves it: the FPS meter is created, and
  \<^verbatim>\<open>_renderer\<close> is null, since the call of \<^verbatim>\<open>_createRenderer\<close> is commented out in
  \<^verbatim>\<open>_createAllElements\<close> and nothing else assigns the field.
\<close>

definition initialGraphics :: Graphics where
  "initialGraphics =
     \<lparr>fpsMeter = Some [], renderer = None, rendered = False, skipCount = 0, maxSkip = 3,
      frameCount = 0, renderMillis = 0\<rparr>"

text \<open>The static initialisers; \<open>t0\<close> is what \<^verbatim>\<open>performance.now()\<close> gave at load time.\<close>

definition initial :: "rat \<Rightarrow> SceneManager" where
  "initial t0 =
     \<lparr>scene = None, nextScene = None, stack = [], stopped = False, sceneStarted = False,
      exiting = False, previousClass = None, currentTime = t0, accumulator = 0,
      events = [], graphics = initialGraphics, inputThrows = None\<rparr>"

text \<open>
  A call either returns or throws; either way the fields written before the throw stay
  written, so the outcome carries the state in both cases.
\<close>

type_synonym outcome = "exn option \<times> SceneManager"

definition emit :: "event \<Rightarrow> SceneManager \<Rightarrow> SceneManager" where
  "emit ev w = w\<lparr>events := events w @ [ev]\<rparr>"

definition invoke :: "lifecycle \<Rightarrow> Scene \<Rightarrow> SceneManager \<Rightarrow> outcome" where
  "invoke m sc w =
     (case map_of (throwing sc) m of
        Some e \<Rightarrow> (Some e, emit (Threw (ident sc) m) w)
      | None \<Rightarrow> (None, emit (Call (ident sc) m) w))"

definition query :: "lifecycle \<Rightarrow> bool \<Rightarrow> Scene \<Rightarrow> exn + bool" where
  "query m v sc = (case map_of (throwing sc) m of Some e \<Rightarrow> Inl e | None \<Rightarrow> Inr v)"

definition andThen :: "outcome \<Rightarrow> (SceneManager \<Rightarrow> outcome) \<Rightarrow> outcome" where
  "andThen r f = (case r of (None, w) \<Rightarrow> f w | (Some e, w) \<Rightarrow> (Some e, w))"

text \<open>Reading a property of \<^verbatim>\<open>null\<close> throws a \<^verbatim>\<open>TypeError\<close>.\<close>

definition nullDereference :: exn where
  "nullDereference = Error ''TypeError'' ''Cannot read property of null''"

section \<open>The operations of SceneManager\<close>

definition stop :: "SceneManager \<Rightarrow> SceneManager" where
  "stop w = w\<lparr>stopped := True\<rparr>"

definition terminate :: "SceneManager \<Rightarrow> SceneManager" where
  "terminate w = emit WindowClose w"

definition requestUpdate :: "SceneManager \<Rightarrow> SceneManager" where
  "requestUpdate w = (if \<not> stopped w then emit RequestAnimationFrame w else w)"

text \<open>
  \<^verbatim>\<open>Graphics.tickStart\<close> and \<^verbatim>\<open>Graphics.tickEnd\<close>: the meter is asked only when there
  is one, and at the end of a frame only when the frame was rendered.
\<close>

definition graphicsTickStart :: "SceneManager \<Rightarrow> outcome" where
  "graphicsTickStart w =
     (case fpsMeter (graphics w) of
        None \<Rightarrow> (None, w)
      | Some meter \<Rightarrow> (map_of meter MeterTickStart, w))"

definition graphicsTickEnd :: "SceneManager \<Rightarrow> outcome" where
  "graphicsTickEnd w =
     (case fpsMeter (graphics w) of
        None \<Rightarrow> (None, w)
      | Some meter \<Rightarrow>
          if rendered (graphics w) then (map_of meter MeterTick, w) else (None, w))"

text \<open>
  \<^verbatim>\<open>Graphics.render(stage)\<close>. With nothing to skip, a stage given is handed to
  \<^verbatim>\<open>_renderer.render\<close>, which throws a \<^verbatim>\<open>TypeError\<close> when \<^verbatim>\<open>_renderer\<close> is null; the
  skip count is then set from the time the render took and the frame counts as
  rendered. Otherwise one skip is used up and the frame counts as not rendered. The
  frame counter goes up unless the renderer threw.
\<close>

definition graphicsRender :: "Scene option \<Rightarrow> SceneManager \<Rightarrow> outcome" where
  "graphicsRender stage w =
     andThen
       (if skipCount (graphics w) = 0 then
          andThen
            (case stage of
               None \<Rightarrow> (None, w)
             | Some sc \<Rightarrow>
                 (case renderer (graphics w) of
                    None \<Rightarrow> (Some nullDereference, w)
                  | Some r \<Rightarrow> (r, w)))
            (\<lambda>w. (None,
               w\<lparr>graphics := (graphics w)
                  \<lparr>skipCount := min (renderMillis (graphics w) div 15) (maxSkip (graphics w)),
                   rendered := True\<rparr>\<rparr>))
        else
          (None,
           w\<lparr>graphics := (graphics w)
              \<lparr>skipCount := skipCount (graphics w) - 1, rendered := False\<rparr>\<rparr>))
       (\<lambda>w. (None, w\<lparr>graphics := (graphics w)\<lparr>frameCount := frameCount (graphics w) + 1\<rparr>\<rparr>))"

definition tickStart :: "SceneManager \<Rightarrow> outcome" where
  "tickStart w = graphicsTickStart (emit GraphicsTickStart w)"

definition tickEnd :: "SceneManager \<Rightarrow> outcome" where
  "tickEnd w = graphicsTickEnd (emit GraphicsTickEnd w)"

definition updateInputData :: "SceneManager \<Rightarrow> outcome" where
  "updateInputData w = (inputThrows w, emit InputUpdate w)"

definition onSceneCreate :: "SceneManager \<Rightarrow> SceneManager" where
  "onSceneCreate w = emit StartLoading w"

definition onSceneStart :: "SceneManager \<Rightarrow> SceneManager" where
  "onSceneStart w = emit EndLoading w"

definition onSceneLoading :: "SceneManager \<Rightarrow> SceneManager" where
  "onSceneLoading w = emit UpdateLoading w"

definition isSceneChanging :: "SceneManager \<Rightarrow> bool" where
  "isSceneChanging w = (exiting w \<or> nextScene w \<noteq> None)"

definition isCurrentSceneBusy :: "SceneManager \<Rightarrow> exn + bool" where
  "isCurrentSceneBusy w =
     (case scene w of None \<Rightarrow> Inr False | Some sc \<Rightarrow> query IsBusy (busy sc) sc)"

definition isCurrentSceneStarted :: "SceneManager \<Rightarrow> bool" where
  "isCurrentSceneStarted w = (scene w \<noteq> None \<and> sceneStarted w)"

definition isNextScene :: "scene_class \<Rightarrow> SceneManager \<Rightarrow> bool" where
  "isNextScene sceneClass w =
     (case nextScene w of None \<Rightarrow> False | Some sc \<Rightarrow> constructor_of sc = sceneClass)"

definition isPreviousScene :: "scene_class option \<Rightarrow> SceneManager \<Rightarrow> bool" where
  "isPreviousScene sceneClass w = (previousClass w = sceneClass)"

text \<open>
  \<^verbatim>\<open>catchException\<close>: an \<^verbatim>\<open>Error\<close> is printed with its name and message and its stack
  goes to the console; any other thrown value is printed as \<^verbatim>\<open>UnknownError\<close>.
\<close>

definition catchException :: "exn \<Rightarrow> SceneManager \<Rightarrow> SceneManager" where
  "catchException e w =
     stop (emit AudioStopAll
       (case e of
          Error name message \<Rightarrow> emit ConsoleError (emit (PrintError name message) w)
        | Thrown v \<Rightarrow> emit (PrintError ''UnknownError'' v) w))"

text \<open>
  \<^verbatim>\<open>changeScene\<close>. The busy predicate is only asked when a change is due (the \<^verbatim>\<open>&&\<close>
  short-circuits).
\<close>

definition changeScene :: "SceneManager \<Rightarrow> outcome" where
  "changeScene w =
     (if isSceneChanging w then
        (case isCurrentSceneBusy w of
           Inl e \<Rightarrow> (Some e, w)
         | Inr True \<Rightarrow> (None, w)
         | Inr False \<Rightarrow>
             andThen
               (case scene w of
                  None \<Rightarrow> (None, w)
                | Some sc \<Rightarrow>
                    andThen (invoke Terminate sc w)
                      (\<lambda>w. (None, w\<lparr>previousClass := Some (constructor_of sc)\<rparr>)))
               (\<lambda>w.
                  let w = w\<lparr>scene := nextScene w\<rparr> in
                  andThen
                    (case scene w of
                       None \<Rightarrow> (None, w)
                     | Some sc \<Rightarrow>
                         andThen (invoke Create sc w)
                           (\<lambda>w. (None,
                              onSceneCreate (w\<lparr>nextScene := None, sceneStarted := False\<rparr>))))
                    (\<lambda>w. (None, if exiting w then terminate w else w))))
      else (None, w))"

definition updateScene :: "SceneManager \<Rightarrow> outcome" where
  "updateScene w =
     (case scene w of
        None \<Rightarrow> (None, w)
      | Some sc \<Rightarrow>
          andThen
            (if \<not> sceneStarted w then
               (case query IsReady (ready sc) sc of
                  Inl e \<Rightarrow> (Some e, w)
                | Inr False \<Rightarrow> (None, w)
                | Inr True \<Rightarrow>
                    andThen (invoke Start sc w)
                      (\<lambda>w. (None, onSceneStart (w\<lparr>sceneStarted := True\<rparr>))))
             else (None, w))
            (\<lambda>w. if isCurrentSceneStarted w then invoke Update sc w else (None, w)))"

definition renderScene :: "SceneManager \<Rightarrow> outcome" where
  "renderScene w =
     (if isCurrentSceneStarted w then
        (case scene w of
           Some sc \<Rightarrow> graphicsRender (scene w) (emit (GraphicsRender (ident sc)) w)
         | None \<Rightarrow> (None, w))
      else if scene w \<noteq> None then (None, onSceneLoading w)
      else (None, w))"

text \<open>
  The \<^verbatim>\<open>while\<close> loop of \<^verbatim>\<open>updateMain\<close>: one input sample and one transition check per
  fixed step, until less than a step is left.
\<close>

function drain :: "SceneManager \<Rightarrow> outcome" where
  "drain w =
     (if accumulator w \<ge> deltaTime then
        (case andThen (updateInputData w) changeScene of
           (Some e, w') \<Rightarrow> (Some e, w')
         | (None, w') \<Rightarrow> drain (w'\<lparr>accumulator := accumulator w' - deltaTime\<rparr>))
      else (None, w))"
  by pat_completeness auto

text \<open>
  \<^verbatim>\<open>updateMain\<close>; \<open>mobileSafari\<close> is what \<^verbatim>\<open>Utils.isMobileSafari()\<close> answers and
  \<open>newTime\<close> what \<^verbatim>\<open>performance.now()\<close> returns in this frame. The calls of
  \<^verbatim>\<open>updateScene\<close> are commented out in both branches of the source.
\<close>

definition updateMain :: "bool \<Rightarrow> rat \<Rightarrow> SceneManager \<Rightarrow> outcome" where
  "updateMain mobileSafari newTime w =
     andThen
       (if mobileSafari then changeScene w
        else
          (let fTime = (newTime - currentTime w) / 1000;
               fTime = (if fTime > 1 / 4 then 1 / 4 else fTime);
               w = w\<lparr>currentTime := newTime\<rparr>;
               w = w\<lparr>accumulator := accumulator w + fTime\<rparr>
           in drain w))
       (\<lambda>w. andThen (renderScene w) (\<lambda>w. (None, requestUpdate w)))"

text \<open>The body of the \<^verbatim>\<open>try\<close> block of \<^verbatim>\<open>update\<close>, and \<^verbatim>\<open>update\<close> itself.\<close>

definition updateTry :: "bool \<Rightarrow> rat \<Rightarrow> SceneManager \<Rightarrow> outcome" where
  "updateTry mobileSafari newTime w =
     andThen (tickStart w)
       (\<lambda>w. andThen (if mobileSafari then updateInputData w else (None, w))
          (\<lambda>w. andThen (updateMain mobileSafari newTime w) tickEnd))"

definition update :: "bool \<Rightarrow> rat \<Rightarrow> SceneManager \<Rightarrow> SceneManager" where
  "update mobileSafari newTime w =
     (case updateTry mobileSafari newTime w of
        (None, w') \<Rightarrow> w'
      | (Some e, w') \<Rightarrow> catchException e w')"

text \<open>
  \<^verbatim>\<open>goto\<close>: a class given is mounted as a React element on the \<^verbatim>\<open>game\<close> node (the
  assignment to \<^verbatim>\<open>_nextScene\<close> is commented out in the source); then the current scene,
  if any, is asked to stop.
\<close>

definition goto :: "scene_class option \<Rightarrow> SceneManager \<Rightarrow> outcome" where
  "goto sceneClass w =
     (let w = (case sceneClass of Some c \<Rightarrow> emit (ReactRender c) w | None \<Rightarrow> w)
      in case scene w of Some sc \<Rightarrow> invoke Stop sc w | None \<Rightarrow> (None, w))"

text \<open>
  \<^verbatim>\<open>push\<close>: the argument \<^verbatim>\<open>_scene.constructor\<close> is evaluated before anything is
  appended, so with no current scene the read throws and the stack is untouched.
\<close>

definition push :: "scene_class option \<Rightarrow> SceneManager \<Rightarrow> outcome" where
  "push sceneClass w =
     (case scene w of
        None \<Rightarrow> (Some nullDereference, w)
      | Some sc \<Rightarrow> goto sceneClass (w\<lparr>stack := stack w @ [constructor_of sc]\<rparr>))"

definition exit :: "SceneManager \<Rightarrow> outcome" where
  "exit w = andThen (goto None w) (\<lambda>w. (None, w\<lparr>exiting := True\<rparr>))"

definition pop :: "SceneManager \<Rightarrow> outcome" where
  "pop w =
     (if length (stack w) > 0 then
        goto (Some (last (stack w))) (w\<lparr>stack := butlast (stack w)\<rparr>)
      else exit w)"

definition clearStack :: "SceneManager \<Rightarrow> SceneManager" where
  "clearStack w = w\<lparr>stack := []\<rparr>"

section \<open>Auxiliary notions for the proofs\<close>

text \<open>
  The entries a transition check can add to the trace, those a fixed step can add, and
  the entries that are calls of one lifecycle method.
\<close>

fun transitionEvent :: "event \<Rightarrow> bool" where
  "transitionEvent (Call i m) = (m = Terminate \<or> m = Create)"
| "transitionEvent (Threw i m) = (m = Terminate \<or> m = Create)"
| "transitionEvent StartLoading = True"
| "transitionEvent WindowClose = True"
| "transitionEvent _ = False"

definition tickEvent :: "event \<Rightarrow> bool" where
  "tickEvent ev = (transitionEvent ev \<or> ev = InputUpdate)"

fun calls :: "lifecycle \<Rightarrow> event \<Rightarrow> bool" where
  "calls m (Call i m') = (m = m')"
| "calls m (Threw i m') = (m = m')"
| "calls m _ = False"

text \<open>\<open>extends Q w w'\<close>: the trace of \<open>w'\<close> is that of \<open>w\<close> followed by entries in \<open>Q\<close>.\<close>

definition extends :: "(event \<Rightarrow> bool) \<Rightarrow> SceneManager \<Rightarrow> SceneManager \<Rightarrow> bool" where
  "extends Q w w' = (\<exists>new. events w' = events w @ new \<and> (\<forall>ev\<in>set new. Q ev))"

text \<open>
  The entries a frame can add to the trace before it reaches \<^verbatim>\<open>requestUpdate\<close>.
\<close>

fun earlyEvent :: "event \<Rightarrow> bool" where
  "earlyEvent (Call i m) = (m = Terminate \<or> m = Create)"
| "earlyEvent (Threw i m) = (m = Terminate \<or> m = Create)"
| "earlyEvent StartLoading = True"
| "earlyEvent WindowClose = True"
| "earlyEvent InputUpdate = True"
| "earlyEvent GraphicsTickStart = True"
| "earlyEvent (GraphicsRender i) = True"
| "earlyEvent UpdateLoading = True"
| "earlyEvent _ = False"

text \<open>
  Two stretches of a frame, named for the proofs: what \<^verbatim>\<open>updateMain\<close> does before it
  renders, and what \<^verbatim>\<open>update\<close> does before \<^verbatim>\<open>updateMain\<close> reaches
  \<^verbatim>\<open>requestUpdate\<close>.
\<close>

definition ticks :: "bool \<Rightarrow> rat \<Rightarrow> SceneManager \<Rightarrow> outcome" where
  "ticks mobileSafari newTime w =
     (if mobileSafari then changeScene w
      else
        (let fTime = (newTime - currentTime w) / 1000;
             fTime = (if fTime > 1 / 4 then 1 / 4 else fTime);
             w = w\<lparr>currentTime := newTime\<rparr>;
             w = w\<lparr>accumulator := accumulator w + fTime\<rparr>
         in drain w))"

definition beforeRequest :: "bool \<Rightarrow> rat \<Rightarrow> SceneManager \<Rightarrow> outcome" where
  "beforeRequest mobileSafari newTime w =
     andThen (tickStart w)
       (\<lambda>w. andThen (if mobileSafari then updateInputData w else (None, w))
          (\<lambda>w. andThen (ticks mobileSafari newTime w) renderScene))"

text \<open>
  A driver for \<^verbatim>\<open>updateScene\<close>, which nothing in the source calls: one call per entry of
  the list, the entry being what the current scene's \<^verbatim>\<open>isReady()\<close> answers in that
  frame.
\<close>

definition answering :: "bool \<Rightarrow> SceneManager \<Rightarrow> SceneManager" where
  "answering r w = w\<lparr>scene := map_option (\<lambda>sc. sc\<lparr>ready := r\<rparr>) (scene w)\<rparr>"

fun updateSceneFrames :: "bool list \<Rightarrow> SceneManager \<Rightarrow> outcome" where
  "updateSceneFrames [] w = (None, w)"
| "updateSceneFrames (r # rs) w = andThen (updateScene (answering r w)) (updateSceneFrames rs)"

text \<open>Scene objects used to run the operations on concrete states.\<close>

definition menu :: Scene where
  "menu = \<lparr>ident = 1, constructor_of = 10, ready = True, busy = False, throwing = []\<rparr>"

definition options :: Scene where
  "options = \<lparr>ident = 2, constructor_of = 20, ready = True, busy = False, throwing = []\<rparr>"

definition saving :: Scene where
  "saving = \<lparr>ident = 3, constructor_of = 30, ready = True, busy = True, throwing = []\<rparr>"

definition broken :: Scene where
  "broken = \<lparr>ident = 4, constructor_of = 40, ready = True, busy = False,
     throwing = [(Terminate, Error ''RangeError'' ''teardown failed'')]\<rparr>"

definition loading :: Scene where
  "loading = \<lparr>ident = 5, constructor_of = 50, ready = False, busy = False, throwing = []\<rparr>"

text \<open>An FPS meter whose \<^verbatim>\<open>tick()\<close> throws.\<close>

definition stuckMeter :: "(meterCall \<times> exn) list" where
  "stuckMeter = [(MeterTick, Error ''TypeError'' ''tick failed'')]"

section \<open>Basic facts\<close>

lemmas collab_defs = emit_def stop_def terminate_def requestUpdate_def
  onSceneCreate_def onSceneStart_def onSceneLoading_def

lemmas frame_defs = tickStart_def tickEnd_def graphicsTickStart_def graphicsTickEnd_def
  graphicsRender_def updateInputData_def renderScene_def isCurrentSceneStarted_def

lemmas example_defs = initial_def initialGraphics_def menu_def options_def saving_def broken_def
  loading_def stuckMeter_def

lemma andThen_returned [simp]: "andThen (None, w) f = f w"
  by (simp add: andThen_def)

lemma andThen_threw [simp]: "andThen (Some e, w) f = (Some e, w)"
  by (simp add: andThen_def)

lemma andThen_assoc: "andThen (andThen r f) g = andThen r (\<lambda>w. andThen (f w) g)"
  by (cases r; cases "fst r") (auto simp: andThen_def)

lemma andThen_keeps:
  assumes "P (snd r)" and "\<And>v. P v \<Longrightarrow> P (snd (f v))"
  shows "P (snd (andThen r f))"
  using assms by (cases r; cases "fst r") (auto simp: andThen_def)

lemma andThen_returns: "fst (andThen r f) = None \<Longrightarrow> fst r = None"
  by (cases r; cases "fst r") (auto simp: andThen_def)

lemma invoke_effect:
  "invoke m sc w =
     (map_of (throwing sc) m,
      w\<lparr>events := events w @
         [case map_of (throwing sc) m of None \<Rightarrow> Call (ident sc) m | Some e \<Rightarrow> Threw (ident sc) m]\<rparr>)"
  by (simp add: invoke_def emit_def split: option.splits)

lemma goto_effect:
  "goto c w =
     (case scene w of None \<Rightarrow> None | Some sc \<Rightarrow> map_of (throwing sc) Stop,
      w\<lparr>events := events w
            @ (case c of Some k \<Rightarrow> [ReactRender k] | None \<Rightarrow> [])
            @ (case scene w of
                 None \<Rightarrow> []
               | Some sc \<Rightarrow>
                   (case map_of (throwing sc) Stop of
                      None \<Rightarrow> [Call (ident sc) Stop]
                    | Some e \<Rightarrow> [Threw (ident sc) Stop]))\<rparr>)"
  by (simp add: goto_def invoke_def emit_def Let_def split: option.splits)

text \<open>What the calls of a frame leave of the state: everything but the trace, and for a render the render bookkeeping of \<^verbatim>\<open>Graphics\<close>.\<close>

lemma tickStart_state: "snd (tickStart w) = emit GraphicsTickStart w"
  by (simp add: tickStart_def graphicsTickStart_def split: option.splits)

lemma tickEnd_state: "snd (tickEnd w) = emit GraphicsTickEnd w"
  by (simp add: tickEnd_def graphicsTickEnd_def split: option.splits)

lemma updateInputData_state: "snd (updateInputData w) = emit InputUpdate w"
  by (simp add: updateInputData_def)

lemma graphicsRender_state:
  "\<exists>g. snd (graphicsRender stage w) = w\<lparr>graphics := g\<rparr> \<and> fpsMeter g = fpsMeter (graphics w)"
proof -
  have "\<exists>g. w = w\<lparr>graphics := g\<rparr> \<and> fpsMeter g = fpsMeter (graphics w)"
    by (rule exI [of _ "graphics w"]) simp
  then show ?thesis
    by (auto simp: graphicsRender_def andThen_def split: option.splits)
qed

lemma renderScene_state:
  "\<exists>g new. snd (renderScene w) = w\<lparr>graphics := g, events := events w @ new\<rparr>
     \<and> fpsMeter g = fpsMeter (graphics w) \<and> (\<forall>ev\<in>set new. earlyEvent ev)"
proof (cases "isCurrentSceneStarted w")
  case True
  then obtain sc where sc: "scene w = Some sc" by (auto simp: isCurrentSceneStarted_def)
  let ?w = "emit (GraphicsRender (ident sc)) w"
  from graphicsRender_state [of "scene w" ?w] obtain g where
    g: "snd (graphicsRender (scene w) ?w) = ?w\<lparr>graphics := g\<rparr>"
      "fpsMeter g = fpsMeter (graphics ?w)" by blast
  have "snd (renderScene w) = w\<lparr>graphics := g, events := events w @ [GraphicsRender (ident sc)]\<rparr>"
    using True sc g(1) by (simp add: renderScene_def emit_def)
  moreover have "fpsMeter g = fpsMeter (graphics w)" using g(2) by (simp add: emit_def)
  ultimately show ?thesis by (intro exI [of _ g] exI [of _ "[GraphicsRender (ident sc)]"]) simp
next
  case False
  show ?thesis
  proof (cases "scene w")
    case None
    with False have "snd (renderScene w) = w\<lparr>graphics := graphics w, events := events w @ []\<rparr>"
      by (simp add: renderScene_def)
    then show ?thesis by (intro exI [of _ "graphics w"] exI [of _ "[]"]) simp
  next
    case (Some sc)
    with False have "snd (renderScene w)
        = w\<lparr>graphics := graphics w, events := events w @ [UpdateLoading]\<rparr>"
      by (simp add: renderScene_def collab_defs)
    then show ?thesis by (intro exI [of _ "graphics w"] exI [of _ "[UpdateLoading]"]) simp
  qed
qed

lemma changeScene_accumulator: "accumulator (snd (changeScene w)) = accumulator w"
  by (auto simp: changeScene_def andThen_def invoke_def collab_defs Let_def
      split: option.splits sum.splits bool.splits prod.splits)

lemma tick_accumulator:
  "accumulator (snd (andThen (updateInputData w) changeScene)) = accumulator w"
  by (rule andThen_keeps [where P = "\<lambda>v. accumulator v = accumulator w"])
    (simp_all add: updateInputData_state emit_def changeScene_accumulator)

lemma renderScene_accumulator: "accumulator (snd (renderScene w)) = accumulator w"
proof -
  obtain g new where "snd (renderScene w) = w\<lparr>graphics := g, events := events w @ new\<rparr>"
    using renderScene_state [of w] by blast
  then show ?thesis by simp
qed

lemma requestUpdate_accumulator: "accumulator (requestUpdate w) = accumulator w"
  by (simp add: requestUpdate_def emit_def)

lemma deltaTime_pos: "0 < deltaTime"
  by (simp add: deltaTime_def)

text \<open>
  The loop ends: a pass leaves the accumulator to the transition check untouched and then
  takes one positive step off it.
\<close>

termination drain
proof (relation "measure (\<lambda>w. nat \<lfloor>accumulator w / deltaTime\<rfloor>)")
  show "wf (measure (\<lambda>w. nat \<lfloor>accumulator w / deltaTime\<rfloor>))" by simp
next
  fix w :: SceneManager and x y
  assume ge: "deltaTime \<le> accumulator w"
    and xy: "(x, y) = andThen (updateInputData w) changeScene"
  have acc: "accumulator y = accumulator w"
    using tick_accumulator [of w] xy [symmetric] by simp
  have "\<lfloor>(accumulator w - deltaTime) / deltaTime\<rfloor> = \<lfloor>accumulator w / deltaTime\<rfloor> - 1"
    using deltaTime_pos by (simp add: diff_divide_distrib)
  moreover have "1 \<le> \<lfloor>accumulator w / deltaTime\<rfloor>"
    using ge deltaTime_pos by (simp add: le_floor_iff pos_le_divide_eq)
  ultimately show "(y\<lparr>accumulator := accumulator y - deltaTime\<rparr>, w)
      \<in> measure (\<lambda>w. nat \<lfloor>accumulator w / deltaTime\<rfloor>)"
    using acc by simp
qed

declare drain.simps [simp del]

lemma drain_accumulator:
  "\<exists>k::nat. accumulator (snd (drain w)) = accumulator w - of_nat k * deltaTime"
proof (induction w rule: drain.induct)
  case (1 w)
  show ?case
  proof (cases "deltaTime \<le> accumulator w")
    case False
    then have "drain w = (None, w)" by (simp add: drain.simps)
    then have "accumulator (snd (drain w)) = accumulator w - of_nat 0 * deltaTime" by simp
    then show ?thesis by blast
  next
    case True
    obtain x y where xy: "andThen (updateInputData w) changeScene = (x, y)" by force
    have acc: "accumulator y = accumulator w"
      using tick_accumulator [of w] xy by simp
    show ?thesis
    proof (cases x)
      case (Some e)
      with True xy have "drain w = (Some e, y)" by (simp add: drain.simps)
      with acc have "accumulator (snd (drain w)) = accumulator w - of_nat 0 * deltaTime" by simp
      then show ?thesis by blast
    next
      case None
      with True xy have d: "drain w = drain (y\<lparr>accumulator := accumulator y - deltaTime\<rparr>)"
        by (simp add: drain.simps)
      from "1.IH" [OF True xy [symmetric] None] obtain k :: nat where
        "accumulator (snd (drain (y\<lparr>accumulator := accumulator y - deltaTime\<rparr>)))
           = accumulator (y\<lparr>accumulator := accumulator y - deltaTime\<rparr>) - of_nat k * deltaTime"
        by blast
      with d acc have "accumulator (snd (drain w)) = accumulator w - of_nat (Suc k) * deltaTime"
        by (simp add: algebra_simps)
      then show ?thesis by blast
    qed
  qed
qed

lemma drain_below_step: "fst (drain w) = None \<Longrightarrow> accumulator (snd (drain w)) < deltaTime"
proof (induction w rule: drain.induct)
  case (1 w)
  show ?case
  proof (cases "deltaTime \<le> accumulator w")
    case False
    then show ?thesis by (simp add: drain.simps)
  next
    case True
    obtain x y where xy: "andThen (updateInputData w) changeScene = (x, y)" by force
    show ?thesis
    proof (cases x)
      case (Some e)
      with True xy have "drain w = (Some e, y)" by (simp add: drain.simps)
      with "1.prems" show ?thesis by simp
    next
      case None
      with True xy have d: "drain w = drain (y\<lparr>accumulator := accumulator y - deltaTime\<rparr>)"
        by (simp add: drain.simps)
      with "1.IH" [OF True xy [symmetric] None] "1.prems" show ?thesis by simp
    qed
  qed
qed

section \<open>What a frame can add to the trace\<close>

lemma extends_refl: "extends Q w w"
  by (simp add: extends_def)

lemma extends_trans: "extends Q w w1 \<Longrightarrow> extends Q w1 w2 \<Longrightarrow> extends Q w w2"
  by (fastforce simp: extends_def)

lemma extends_mono: "extends Q w w' \<Longrightarrow> (\<And>ev. Q ev \<Longrightarrow> R ev) \<Longrightarrow> extends R w w'"
  by (fastforce simp: extends_def)

lemma extends_emit: "Q ev \<Longrightarrow> extends Q w (emit ev w)"
  by (simp add: extends_def emit_def)

lemma changeScene_extends: "extends transitionEvent w (snd (changeScene w))"
  by (auto simp: extends_def changeScene_def andThen_def invoke_effect collab_defs Let_def
      split: option.splits sum.splits bool.splits)

lemma transitionEvent_early: "transitionEvent ev \<Longrightarrow> earlyEvent ev"
  by (cases ev) simp_all

lemma tickEvent_early: "tickEvent ev \<Longrightarrow> earlyEvent ev"
  by (auto simp: tickEvent_def transitionEvent_early)

lemma changeScene_stopped: "stopped (snd (changeScene w)) = stopped w"
  by (auto simp: changeScene_def andThen_def invoke_effect collab_defs Let_def
      split: option.splits sum.splits bool.splits)

lemma changeScene_exiting: "exiting (snd (changeScene w)) = exiting w"
  by (auto simp: changeScene_def andThen_def invoke_effect collab_defs Let_def
      split: option.splits sum.splits bool.splits)


lemma changeScene_not_started: "\<not> sceneStarted w \<Longrightarrow> \<not> sceneStarted (snd (changeScene w))"
  by (auto simp: changeScene_def andThen_def invoke_effect collab_defs Let_def
      split: option.splits sum.splits bool.splits)

text \<open>
  What the input sample, the transition check and a write to the accumulator keep, the
  loop keeps; what these, the tick start, a write to the clock and the render keep, the
  frame keeps up to its request for the next one.
\<close>

lemma drain_invariant:
  assumes input: "\<And>w. P w \<Longrightarrow> P (emit InputUpdate w)"
    and change: "\<And>w. P w \<Longrightarrow> P (snd (changeScene w))"
    and acc: "\<And>w a. P w \<Longrightarrow> P (w\<lparr>accumulator := a\<rparr>)"
  shows "P w \<Longrightarrow> P (snd (drain w))"
proof (induction w rule: drain.induct)
  case (1 w)
  show ?case
  proof (cases "deltaTime \<le> accumulator w")
    case False
    with "1.prems" show ?thesis by (simp add: drain.simps)
  next
    case True
    obtain x y where xy: "andThen (updateInputData w) changeScene = (x, y)" by force
    have "P (snd (updateInputData w))"
      by (simp add: updateInputData_state input "1.prems")
    then have "P (snd (andThen (updateInputData w) changeScene))"
      by (rule andThen_keeps [where P = P]) (rule change)
    then have Py: "P y" using xy by simp
    show ?thesis
    proof (cases x)
      case (Some e)
      with True xy Py show ?thesis by (simp add: drain.simps)
    next
      case None
      with True xy have d: "drain w = drain (y\<lparr>accumulator := accumulator y - deltaTime\<rparr>)"
        by (simp add: drain.simps)
      from "1.IH" [OF True xy [symmetric] None acc [OF Py]] d show ?thesis by simp
    qed
  qed
qed

lemma ticks_invariant:
  assumes input: "\<And>w. P w \<Longrightarrow> P (emit InputUpdate w)"
    and change: "\<And>w. P w \<Longrightarrow> P (snd (changeScene w))"
    and acc: "\<And>w a. P w \<Longrightarrow> P (w\<lparr>accumulator := a\<rparr>)"
    and clock: "\<And>w a. P w \<Longrightarrow> P (w\<lparr>currentTime := a\<rparr>)"
  shows "P w \<Longrightarrow> P (snd (ticks ms t w))"
proof (cases ms)
  case True
  assume "P w"
  with True change show ?thesis by (simp add: ticks_def)
next
  case False
  assume "P w"
  then have start: "P (w\<lparr>currentTime := t\<rparr>\<lparr>accumulator := accumulator w + a\<rparr>)" for a
    by (intro acc clock)
  have "P (snd (drain v))" if "P v" for v
    using drain_invariant [where P = P, OF input change acc] that by blast
  with start have "P (snd (drain (w\<lparr>currentTime := t\<rparr>\<lparr>accumulator := accumulator w + a\<rparr>)))"
    for a by blast
  with False show ?thesis by (simp add: ticks_def Let_def)
qed

lemma beforeRequest_invariant:
  assumes emitted: "\<And>w ev. earlyEvent ev \<Longrightarrow> P w \<Longrightarrow> P (emit ev w)"
    and change: "\<And>w. P w \<Longrightarrow> P (snd (changeScene w))"
    and acc: "\<And>w a. P w \<Longrightarrow> P (w\<lparr>accumulator := a\<rparr>)"
    and clock: "\<And>w a. P w \<Longrightarrow> P (w\<lparr>currentTime := a\<rparr>)"
    and render: "\<And>w. P w \<Longrightarrow> P (snd (renderScene w))"
  shows "P w \<Longrightarrow> P (snd (beforeRequest ms t w))"
proof -
  assume w: "P w"
  have input: "P (emit InputUpdate v)" if "P v" for v
    using that by (simp add: emitted)
  have t: "P (snd (ticks ms t v))" if "P v" for v
    using ticks_invariant [where P = P, OF input change acc clock] that by blast
  have i: "P (snd (if ms then updateInputData v else (None, v)))" if "P v" for v
    using that by (simp add: updateInputData_state emitted)
  have r: "P (snd (andThen (ticks ms t v) renderScene))" if "P v" for v
    by (rule andThen_keeps [where P = P]) (simp_all add: t that render)
  have m: "P (snd (andThen (if ms then updateInputData v else (None, v))
              (\<lambda>w. andThen (ticks ms t w) renderScene)))" if "P v" for v
    by (rule andThen_keeps [where P = P]) (simp_all add: i that r)
  have s: "P (snd (tickStart w))"
    by (simp add: tickStart_state emitted w)
  show ?thesis
    unfolding beforeRequest_def
    by (rule andThen_keeps [where P = P]) (simp_all add: s m)
qed

lemma updateMain_ticks:
  "updateMain ms t w =
     andThen (ticks ms t w) (\<lambda>w. andThen (renderScene w) (\<lambda>w. (None, requestUpdate w)))"
  by (simp add: updateMain_def ticks_def)

lemma updateTry_phases:
  "updateTry ms t w = andThen (beforeRequest ms t w) (\<lambda>w. tickEnd (requestUpdate w))"
proof -
  have "andThen (updateMain ms t v) tickEnd
      = andThen (andThen (ticks ms t v) renderScene) (\<lambda>w. tickEnd (requestUpdate w))" for v
    by (simp add: updateMain_ticks andThen_assoc)
  then show ?thesis
    by (simp add: updateTry_def beforeRequest_def andThen_assoc)
qed

lemma renderScene_extends: "extends earlyEvent w (snd (renderScene w))"
proof -
  obtain g new where "snd (renderScene w) = w\<lparr>graphics := g, events := events w @ new\<rparr>"
    and "\<forall>ev\<in>set new. earlyEvent ev"
    using renderScene_state [of w] by blast
  then show ?thesis by (simp add: extends_def)
qed

lemma renderScene_fields:
  "stopped (snd (renderScene w)) = stopped w
   \<and> sceneStarted (snd (renderScene w)) = sceneStarted w
   \<and> exiting (snd (renderScene w)) = exiting w
   \<and> accumulator (snd (renderScene w)) = accumulator w
   \<and> fpsMeter (graphics (snd (renderScene w))) = fpsMeter (graphics w)"
proof -
  obtain g new where "snd (renderScene w) = w\<lparr>graphics := g, events := events w @ new\<rparr>"
    and "fpsMeter g = fpsMeter (graphics w)"
    using renderScene_state [of w] by blast
  then show ?thesis by simp
qed

lemmas renderScene_stopped = renderScene_fields [THEN conjunct1]
lemmas renderScene_started = renderScene_fields [THEN conjunct2, THEN conjunct1]
lemmas renderScene_exiting = renderScene_fields [THEN conjunct2, THEN conjunct2, THEN conjunct1]

lemma ticks_extends: "extends tickEvent w (snd (ticks ms t w))"
proof (rule ticks_invariant [where P = "extends tickEvent w"])
  fix v assume "extends tickEvent w v"
  then show "extends tickEvent w (emit InputUpdate v)"
    by (rule extends_trans) (simp add: extends_emit tickEvent_def)
next
  fix v assume "extends tickEvent w v"
  moreover have "extends tickEvent v (snd (changeScene v))"
    by (rule extends_mono [OF changeScene_extends]) (simp add: tickEvent_def)
  ultimately show "extends tickEvent w (snd (changeScene v))" by (rule extends_trans)
qed (simp_all add: extends_def)

lemma ticks_not_started: "\<not> sceneStarted w \<Longrightarrow> \<not> sceneStarted (snd (ticks ms t w))"
  by (rule ticks_invariant [where P = "\<lambda>v. \<not> sceneStarted v"])
    (simp_all add: changeScene_not_started emit_def)

lemma beforeRequest_extends: "extends earlyEvent w (snd (beforeRequest ms t w))"
proof (rule beforeRequest_invariant [where P = "extends earlyEvent w"])
  fix v ev assume "earlyEvent ev" and "extends earlyEvent w v"
  then show "extends earlyEvent w (emit ev v)"
    by (blast intro: extends_trans extends_emit)
next
  fix v assume "extends earlyEvent w v"
  moreover have "extends earlyEvent v (snd (changeScene v))"
    by (rule extends_mono [OF changeScene_extends]) (rule transitionEvent_early)
  ultimately show "extends earlyEvent w (snd (changeScene v))" by (rule extends_trans)
next
  fix v assume "extends earlyEvent w v"
  then show "extends earlyEvent w (snd (renderScene v))"
    using renderScene_extends by (rule extends_trans)
qed (simp_all add: extends_def)

lemma beforeRequest_stopped: "stopped (snd (beforeRequest ms t w)) = stopped w"
  by (rule beforeRequest_invariant [where P = "\<lambda>v. stopped v = stopped w"])
    (simp_all add: changeScene_stopped renderScene_stopped emit_def)

lemma beforeRequest_exiting: "exiting (snd (beforeRequest ms t w)) = exiting w"
  by (rule beforeRequest_invariant [where P = "\<lambda>v. exiting v = exiting w"])
    (simp_all add: changeScene_exiting renderScene_exiting emit_def)


lemma catchException_effect:
  "catchException e w =
     w\<lparr>stopped := True,
       events := events w
         @ (case e of
              Error name message \<Rightarrow> [PrintError name message, ConsoleError]
            | Thrown v \<Rightarrow> [PrintError ''UnknownError'' v])
         @ [AudioStopAll]\<rparr>"
  by (simp add: catchException_def collab_defs split: exn.splits)

text \<open>
  The body of \<^verbatim>\<open>update\<close> either fails before the request for the next frame, or gets
  as far as \<^verbatim>\<open>tickEnd\<close>, which adds its entry to the trace and throws only what the
  meter's \<^verbatim>\<open>tick()\<close> throws.
\<close>

lemma updateTry_cases:
  obtains (early) e y where "beforeRequest ms t w = (Some e, y)"
      and "updateTry ms t w = (Some e, y)"
    | (late) y where "beforeRequest ms t w = (None, y)"
      and "updateTry ms t w = tickEnd (requestUpdate y)"
proof (cases "beforeRequest ms t w")
  case (Pair x y)
  show ?thesis
  proof (cases x)
    case None
    with Pair show ?thesis by (intro late [of y]) (simp_all add: updateTry_phases)
  next
    case (Some e)
    with Pair show ?thesis by (intro early [of e y]) (simp_all add: updateTry_phases)
  qed
qed


lemma update_late:
  assumes "beforeRequest ms t w = (None, y)"
  shows "update ms t w =
     (case fst (tickEnd (requestUpdate y)) of
        None \<Rightarrow> emit GraphicsTickEnd (requestUpdate y)
      | Some e \<Rightarrow> catchException e (emit GraphicsTickEnd (requestUpdate y)))"
proof -
  have "updateTry ms t w = tickEnd (requestUpdate y)"
    using assms by (simp add: updateTry_phases)
  moreover have "tickEnd (requestUpdate y)
      = (fst (tickEnd (requestUpdate y)), emit GraphicsTickEnd (requestUpdate y))"
    by (simp add: prod_eq_iff tickEnd_state)
  ultimately show ?thesis
    by (cases "fst (tickEnd (requestUpdate y))") (simp_all add: update_def)
qed

lemma update_early:
  assumes "beforeRequest ms t w = (Some e, y)"
  shows "update ms t w = catchException e y"
  using assms by (simp add: update_def updateTry_phases)

lemma update_exiting: "exiting (update ms t w) = exiting w"
proof (cases "beforeRequest ms t w")
  case (Pair x y)
  have ey: "exiting y = exiting w"
    using beforeRequest_exiting [of ms t w] Pair by simp
  show ?thesis
  proof (cases x)
    case None
    with Pair ey show ?thesis
      by (simp add: update_late catchException_effect requestUpdate_def emit_def
          split: option.splits)
  next
    case (Some e)
    with Pair ey show ?thesis by (simp add: update_early catchException_effect)
  qed
qed


section \<open>Navigation: goto, push, pop\<close>

text \<open>
  C1, as the code has it. \<^verbatim>\<open>goto(f)\<close> asks the current scene, if there is one, to stop
  and, when \<open>f\<close> is a class, mounts a React element of \<open>f\<close>. It writes no field of the
  manager: the pending slot \<^verbatim>\<open>_nextScene\<close> keeps the value it had, as do the current
  scene, the stack and the flags. It throws exactly when the scene's \<^verbatim>\<open>stop()\<close> throws.
\<close>

theorem goto_leaves_pending:
  "snd (goto c w) =
     w\<lparr>events := events w
          @ (case c of Some k \<Rightarrow> [ReactRender k] | None \<Rightarrow> [])
          @ (case scene w of
               None \<Rightarrow> []
             | Some sc \<Rightarrow>
                 (case map_of (throwing sc) Stop of
                    None \<Rightarrow> [Call (ident sc) Stop]
                  | Some e \<Rightarrow> [Threw (ident sc) Stop]))\<rparr>
   \<and> nextScene (snd (goto c w)) = nextScene w
   \<and> fst (goto c w) = (case scene w of None \<Rightarrow> None | Some sc \<Rightarrow> map_of (throwing sc) Stop)"
  by (simp add: goto_effect)

text \<open>
  C1 at a concrete state: with the menu scene current, \<^verbatim>\<open>goto\<close> of class 20 mounts the
  element, stops the menu and changes nothing else.
\<close>

theorem goto_leaves_pending_witness:
  "goto (Some 20) ((initial 0)\<lparr>scene := Some menu\<rparr>)
     = (None, (initial 0)\<lparr>scene := Some menu, events := [ReactRender 20, Call 1 Stop]\<rparr>)"
  using goto_leaves_pending [of "Some 20" "(initial 0)\<lparr>scene := Some menu\<rparr>"]
  by (simp add: example_defs prod_eq_iff)

text \<open>
  C1 as the specification words it fails: after \<^verbatim>\<open>goto\<close> of class 10 from the initial
  state the pending slot is still empty, and \<^verbatim>\<open>isNextScene\<close> of that class is false.
\<close>

theorem goto_pending_counterexample:
  "nextScene (snd (goto (Some 10) (initial 0))) = None
   \<and> \<not> isNextScene 10 (snd (goto (Some 10) (initial 0)))"
  by (simp add: goto_effect isNextScene_def initial_def)

text \<open>
  C7. \<^verbatim>\<open>pop()\<close> on a non-empty stack removes exactly the last class and performs
  \<^verbatim>\<open>goto\<close> with it, leaving the rest of the stack; on an empty stack it performs
  \<^verbatim>\<open>exit()\<close>.
\<close>

theorem pop_last_or_exit:
  "(stack w \<noteq> [] \<longrightarrow>
      pop w = goto (Some (last (stack w))) (w\<lparr>stack := butlast (stack w)\<rparr>)
      \<and> stack (snd (pop w)) = butlast (stack w))
   \<and> (stack w = [] \<longrightarrow> pop w = exit w \<and> stack (snd (pop w)) = [])"
  by (simp add: pop_def exit_def andThen_def goto_effect split: option.splits)

text \<open>C7 on the stack \<open>[3, 5]\<close> and on the empty stack of the initial state.\<close>

theorem pop_last_or_exit_witness:
  "stack ((initial 0)\<lparr>stack := [3, 5]\<rparr>) \<noteq> []
   \<and> pop ((initial 0)\<lparr>stack := [3, 5]\<rparr>)
       = (None, (initial 0)\<lparr>stack := [3], events := [ReactRender 5]\<rparr>)
   \<and> stack (initial 0) = []
   \<and> pop (initial 0) = (None, (initial 0)\<lparr>exiting := True\<rparr>)"
  using pop_last_or_exit [of "(initial 0)\<lparr>stack := [3, 5]\<rparr>"] pop_last_or_exit [of "initial 0"]
  by (simp add: initial_def goto_effect exit_def andThen_def)

text \<open>
  C8. \<^verbatim>\<open>push(f)\<close> needs a current scene. With one, the scene's class is appended to the
  stack and \<^verbatim>\<open>goto(f)\<close> is performed. With none, reading \<^verbatim>\<open>_scene.constructor\<close>
  throws at once, before the stack or anything else is written.
\<close>

theorem push_needs_current_scene:
  "(scene w = None \<longrightarrow> push c w = (Some nullDereference, w))
   \<and> (\<forall>sc. scene w = Some sc \<longrightarrow>
         push c w = goto c (w\<lparr>stack := stack w @ [constructor_of sc]\<rparr>)
         \<and> stack (snd (push c w)) = stack w @ [constructor_of sc])"
  by (simp add: push_def goto_effect)

text \<open>C8 from the initial state (no scene) and with the menu scene current.\<close>

theorem push_needs_current_scene_witness:
  "scene (initial 0) = None
   \<and> push (Some 20) (initial 0) = (Some nullDereference, initial 0)
   \<and> scene ((initial 0)\<lparr>scene := Some menu, stack := [7]\<rparr>) = Some menu
   \<and> push (Some 20) ((initial 0)\<lparr>scene := Some menu, stack := [7]\<rparr>)
       = (None, (initial 0)\<lparr>scene := Some menu, stack := [7, 10],
                  events := [ReactRender 20, Call 1 Stop]\<rparr>)"
  using push_needs_current_scene [of "initial 0" "Some 20"]
    push_needs_current_scene [of "(initial 0)\<lparr>scene := Some menu, stack := [7]\<rparr>" "Some 20"]
  by (simp add: example_defs goto_effect)

section \<open>The transition check\<close>

text \<open>
  C10. When no transition is due (\<^verbatim>\<open>_exiting\<close> false and \<^verbatim>\<open>_nextScene\<close> null), or when
  the current scene reports busy, \<^verbatim>\<open>changeScene\<close> returns normally and leaves every
  field of the manager as it was, and calls nothing.
\<close>

theorem changeScene_unchanged:
  assumes "(\<not> exiting w \<and> nextScene w = None) \<or> isCurrentSceneBusy w = Inr True"
  shows "changeScene w = (None, w)"
  using assms by (auto simp: changeScene_def isSceneChanging_def)

text \<open>
  C10 on two states: the initial one, where nothing is due, and one where a scene is
  pending and exit was requested but the current scene is busy.
\<close>

theorem changeScene_unchanged_witness:
  "\<not> exiting (initial 0) \<and> nextScene (initial 0) = None
   \<and> changeScene (initial 0) = (None, initial 0)
   \<and> isCurrentSceneBusy
        ((initial 0)\<lparr>scene := Some saving, nextScene := Some menu, exiting := True\<rparr>) = Inr True
   \<and> changeScene ((initial 0)\<lparr>scene := Some saving, nextScene := Some menu, exiting := True\<rparr>)
       = (None, (initial 0)\<lparr>scene := Some saving, nextScene := Some menu, exiting := True\<rparr>)"
  using changeScene_unchanged [of "initial 0"]
    changeScene_unchanged
      [of "(initial 0)\<lparr>scene := Some saving, nextScene := Some menu, exiting := True\<rparr>"]
  by (simp add: example_defs isCurrentSceneBusy_def query_def)

text \<open>
  C4. In every transition \<^verbatim>\<open>changeScene\<close> performs with an outgoing scene, the first new
  entry of the trace is the outgoing scene's \<^verbatim>\<open>terminate()\<close>. If it throws, the
  transition stops there and \<^verbatim>\<open>create()\<close> is never called. If it returns,
  \<^verbatim>\<open>_previousClass\<close> is the outgoing scene's constructor, and only then comes the
  incoming scene's \<^verbatim>\<open>create()\<close>, if a scene is pending.
\<close>

theorem changeScene_terminate_then_create:
  assumes due: "isSceneChanging w" and free: "isCurrentSceneBusy w = Inr False"
    and old: "scene w = Some old"
  shows "(\<forall>e. map_of (throwing old) Terminate = Some e \<longrightarrow>
            changeScene w = (Some e, w\<lparr>events := events w @ [Threw (ident old) Terminate]\<rparr>))
       \<and> (map_of (throwing old) Terminate = None \<longrightarrow>
            previousClass (snd (changeScene w)) = Some (constructor_of old)
            \<and> events (snd (changeScene w)) =
                events w @ Call (ident old) Terminate #
                  (case nextScene w of
                     None \<Rightarrow> (if exiting w then [WindowClose] else [])
                   | Some new \<Rightarrow>
                       (case map_of (throwing new) Create of
                          Some e \<Rightarrow> [Threw (ident new) Create]
                        | None \<Rightarrow> [Call (ident new) Create, StartLoading]
                                   @ (if exiting w then [WindowClose] else []))))"
proof (intro conjI allI impI)
  fix e assume "map_of (throwing old) Terminate = Some e"
  with assms show "changeScene w = (Some e, w\<lparr>events := events w @ [Threw (ident old) Terminate]\<rparr>)"
    by (simp add: changeScene_def andThen_def invoke_effect)
next
  assume ok: "map_of (throwing old) Terminate = None"
  with assms show "previousClass (snd (changeScene w)) = Some (constructor_of old)"
    by (auto simp: changeScene_def andThen_def invoke_effect collab_defs Let_def
        split: option.splits)
  from ok assms show "events (snd (changeScene w)) =
      events w @ Call (ident old) Terminate #
        (case nextScene w of
           None \<Rightarrow> (if exiting w then [WindowClose] else [])
         | Some new \<Rightarrow>
             (case map_of (throwing new) Create of
                Some e \<Rightarrow> [Threw (ident new) Create]
              | None \<Rightarrow> [Call (ident new) Create, StartLoading]
                         @ (if exiting w then [WindowClose] else [])))"
    by (auto simp: changeScene_def andThen_def invoke_effect collab_defs Let_def
        split: option.splits)
qed

text \<open>
  C4 on the transition from the menu scene to the options scene, and on a transition
  whose outgoing scene fails to terminate.
\<close>

theorem changeScene_terminate_then_create_witness:
  "isSceneChanging ((initial 0)\<lparr>scene := Some menu, nextScene := Some options\<rparr>)
   \<and> isCurrentSceneBusy ((initial 0)\<lparr>scene := Some menu, nextScene := Some options\<rparr>)
       = Inr False
   \<and> previousClass
        (snd (changeScene ((initial 0)\<lparr>scene := Some menu, nextScene := Some options\<rparr>)))
       = Some 10
   \<and> events (snd (changeScene ((initial 0)\<lparr>scene := Some menu, nextScene := Some options\<rparr>)))
       = [Call 1 Terminate, Call 2 Create, StartLoading]
   \<and> changeScene ((initial 0)\<lparr>scene := Some broken, nextScene := Some options\<rparr>)
       = (Some (Error ''RangeError'' ''teardown failed''),
          (initial 0)\<lparr>scene := Some broken, nextScene := Some options,
                       events := [Threw 4 Terminate]\<rparr>)"
  using changeScene_terminate_then_create
      [of "(initial 0)\<lparr>scene := Some menu, nextScene := Some options\<rparr>" menu]
    changeScene_terminate_then_create
      [of "(initial 0)\<lparr>scene := Some broken, nextScene := Some options\<rparr>" broken]
  by (simp add: example_defs isSceneChanging_def isCurrentSceneBusy_def query_def)

text \<open>
  C5. While the current scene's \<^verbatim>\<open>isBusy()\<close> answers true, any number of transition
  checks in a row perform no transition: each returns normally with the state as it
  was, whatever \<^verbatim>\<open>_nextScene\<close> and \<^verbatim>\<open>_exiting\<close> hold. Once the same scene answers
  false and a transition is due, the check terminates it and installs the pending scene.
\<close>

theorem changeScene_busy_gating:
  assumes cur: "scene w = Some sc" and ask: "map_of (throwing sc) IsBusy = None"
    and busy: "busy sc"
  shows "changeScene w = (None, w)
       \<and> ((\<lambda>w. snd (changeScene w)) ^^ n) w = w
       \<and> (isSceneChanging w \<and> map_of (throwing sc) Terminate = None \<longrightarrow>
            scene (snd (changeScene (w\<lparr>scene := Some (sc\<lparr>busy := False\<rparr>)\<rparr>))) = nextScene w
            \<and> previousClass (snd (changeScene (w\<lparr>scene := Some (sc\<lparr>busy := False\<rparr>)\<rparr>)))
                = Some (constructor_of sc))"
proof -
  have one: "changeScene w = (None, w)"
    using assms by (simp add: changeScene_def isCurrentSceneBusy_def query_def)
  then have many: "((\<lambda>w. snd (changeScene w)) ^^ n) w = w"
    by (induction n) simp_all
  let ?w = "w\<lparr>scene := Some (sc\<lparr>busy := False\<rparr>)\<rparr>"
  have resume: "scene (snd (changeScene ?w)) = nextScene w
      \<and> previousClass (snd (changeScene ?w)) = Some (constructor_of sc)"
    if "isSceneChanging w" and "map_of (throwing sc) Terminate = None"
    using that ask
    by (auto simp: changeScene_def isSceneChanging_def isCurrentSceneBusy_def query_def
        andThen_def invoke_effect collab_defs Let_def split: option.splits)
  from one many resume show ?thesis by blast
qed

text \<open>
  C5 with the busy scene current, the menu pending and exit requested: three checks
  change nothing; when the scene stops being busy the menu is installed.
\<close>

theorem changeScene_busy_gating_witness:
  "changeScene ((initial 0)\<lparr>scene := Some saving, nextScene := Some menu, exiting := True\<rparr>)
     = (None, (initial 0)\<lparr>scene := Some saving, nextScene := Some menu, exiting := True\<rparr>)
   \<and> ((\<lambda>w. snd (changeScene w)) ^^ 3)
        ((initial 0)\<lparr>scene := Some saving, nextScene := Some menu, exiting := True\<rparr>)
       = (initial 0)\<lparr>scene := Some saving, nextScene := Some menu, exiting := True\<rparr>
   \<and> scene (snd (changeScene
        ((initial 0)\<lparr>scene := Some (saving\<lparr>busy := False\<rparr>), nextScene := Some menu,
                     exiting := True\<rparr>))) = Some menu"
  using changeScene_busy_gating
      [of "(initial 0)\<lparr>scene := Some saving, nextScene := Some menu, exiting := True\<rparr>"
        saving 3]
  by (simp add: example_defs isSceneChanging_def)

section \<open>The fixed-step accumulator\<close>

text \<open>
  C3. In a frame of \<^verbatim>\<open>updateMain\<close> off mobile Safari, the accumulator ends as its old
  value plus the elapsed seconds capped at 0.25, less a whole number of steps; when the
  frame's loop ran to its end (no scene call and no input sample threw), what is left is strictly less than
  one step, also when the render that follows the loop throws. On mobile Safari the frame
  adds nothing and has no loop.
\<close>

theorem updateMain_accumulator_bound:
  "(\<exists>k::nat. accumulator (snd (updateMain False newTime w))
        = accumulator w + min (1 / 4) ((newTime - currentTime w) / 1000) - of_nat k * deltaTime)
   \<and> (fst (updateMain False newTime w) = None \<longrightarrow>
        accumulator (snd (updateMain False newTime w)) < deltaTime)
   \<and> accumulator (snd (updateMain True newTime w)) = accumulator w
   \<and> (fst (ticks False newTime w) = None \<longrightarrow>
        accumulator (snd (updateMain False newTime w)) < deltaTime)"
proof -
  define w1 where "w1 = w\<lparr>currentTime := newTime,
    accumulator := accumulator w + min (1 / 4) ((newTime - currentTime w) / 1000)\<rparr>"
  have after: "accumulator (snd (andThen r
        (\<lambda>w. andThen (renderScene w) (\<lambda>w. (None, requestUpdate w))))) = accumulator (snd r)"
    for r :: outcome
  proof (rule andThen_keeps [where P = "\<lambda>v. accumulator v = accumulator (snd r)"])
    fix v :: SceneManager
    assume "accumulator v = accumulator (snd r)"
    then show "accumulator (snd (andThen (renderScene v) (\<lambda>w. (None, requestUpdate w))))
        = accumulator (snd r)"
      by (intro andThen_keeps [where P = "\<lambda>v. accumulator v = accumulator (snd r)"])
        (simp_all add: renderScene_accumulator requestUpdate_accumulator)
  qed simp
  have um: "updateMain False newTime w
      = andThen (drain w1) (\<lambda>w. andThen (renderScene w) (\<lambda>w. (None, requestUpdate w)))"
    unfolding updateMain_def Let_def w1_def min_def by auto
  have acc: "accumulator (snd (updateMain False newTime w)) = accumulator (snd (drain w1))"
    unfolding um by (rule after)
  have fst: "fst (updateMain False newTime w) = None \<Longrightarrow> fst (drain w1) = None"
    unfolding um by (rule andThen_returns)
  have a: "\<exists>k::nat. accumulator (snd (updateMain False newTime w))
        = accumulator w + min (1 / 4) ((newTime - currentTime w) / 1000) - of_nat k * deltaTime"
    using drain_accumulator [of w1] acc by (simp add: w1_def)
  have b: "fst (updateMain False newTime w) = None \<longrightarrow>
        accumulator (snd (updateMain False newTime w)) < deltaTime"
    using drain_below_step [of w1] acc fst by auto
  have c: "accumulator (snd (updateMain True newTime w)) = accumulator w"
    using after [of "changeScene w"] by (simp add: updateMain_def changeScene_accumulator)
  have tk: "ticks False newTime w = drain w1"
    unfolding ticks_def Let_def w1_def min_def by auto
  have d: "fst (ticks False newTime w) = None \<longrightarrow>
        accumulator (snd (updateMain False newTime w)) < deltaTime"
    using drain_below_step [of w1] acc tk by simp
  from a b c d show ?thesis by blast
qed

text \<open>
  C3 on a frame sampled five seconds after the last one, with 1/300 s left over from
  before: the frame returns normally and leaves less than a step.
\<close>

theorem updateMain_accumulator_bound_witness:
  "fst (updateMain False 5000 ((initial 0)\<lparr>accumulator := 1 / 300\<rparr>)) = None
   \<and> accumulator (snd (updateMain False 5000 ((initial 0)\<lparr>accumulator := 1 / 300\<rparr>)))
       < deltaTime"
proof -
  have ok: "fst (updateMain False 5000 ((initial 0)\<lparr>accumulator := 1 / 300\<rparr>)) = None"
    by (simp add: updateMain_def drain.simps changeScene_def isSceneChanging_def
        frame_defs collab_defs initial_def deltaTime_def Let_def)
  with updateMain_accumulator_bound [of 5000 "(initial 0)\<lparr>accumulator := 1 / 300\<rparr>"]
  show ?thesis by simp
qed

section \<open>The failure boundary of a frame\<close>




section \<open>Starting and updating the current scene\<close>

lemma updateScene_effect:
  assumes "scene w = Some sc" and "throwing sc = []"
  shows "updateScene w =
     (None,
      if sceneStarted w then w\<lparr>events := events w @ [Call (ident sc) Update]\<rparr>
      else if ready sc then
        w\<lparr>sceneStarted := True,
          events := events w @ [Call (ident sc) Start, EndLoading, Call (ident sc) Update]\<rparr>
      else w)"
  using assms
  by (simp add: updateScene_def andThen_def query_def invoke_effect isCurrentSceneStarted_def
      collab_defs)

lemma frames_append:
  "updateSceneFrames (xs @ ys) w = andThen (updateSceneFrames xs w) (updateSceneFrames ys)"
proof (induction xs arbitrary: w)
  case Nil
  show ?case by (simp add: andThen_def)
next
  case (Cons r xs)
  show ?case
    by (cases "updateScene (answering r w)") (simp add: andThen_def Cons.IH split: option.splits)
qed

lemma frames_started:
  assumes "scene w = Some sc" and "throwing sc = []" and "sceneStarted w"
  shows "updateSceneFrames rs w =
     (None, w\<lparr>scene := Some (sc\<lparr>ready := last (ready sc # rs)\<rparr>),
              events := events w @ replicate (length rs) (Call (ident sc) Update)\<rparr>)"
  using assms
proof (induction rs arbitrary: w sc)
  case Nil
  then show ?case by simp
next
  case (Cons r rs)
  let ?sc = "sc\<lparr>ready := r\<rparr>"
  let ?w = "answering r w"
  have s: "scene ?w = Some ?sc" "throwing ?sc = []" "sceneStarted ?w"
    using Cons.prems by (simp_all add: answering_def)
  have u: "updateScene ?w = (None, ?w\<lparr>events := events ?w @ [Call (ident ?sc) Update]\<rparr>)"
    using updateScene_effect [OF s(1) s(2)] s(3) by simp
  let ?w1 = "?w\<lparr>events := events ?w @ [Call (ident ?sc) Update]\<rparr>"
  have s1: "scene ?w1 = Some ?sc" "sceneStarted ?w1" using s by simp_all
  have "updateSceneFrames (r # rs) w = updateSceneFrames rs ?w1"
    by (simp add: u andThen_def)
  also have "\<dots> = (None, ?w1\<lparr>scene := Some (?sc\<lparr>ready := last (ready ?sc # rs)\<rparr>),
              events := events ?w1 @ replicate (length rs) (Call (ident ?sc) Update)\<rparr>)"
    by (rule Cons.IH [OF s1(1) s(2) s1(2)])
  also have "\<dots> = (None, w\<lparr>scene := Some (sc\<lparr>ready := last (ready sc # r # rs)\<rparr>),
              events := events w @ replicate (length (r # rs)) (Call (ident sc) Update)\<rparr>)"
    by (simp add: answering_def replicate_append_same)
  finally show ?case .
qed

lemma frames_waiting:
  assumes "scene w = Some sc" and "throwing sc = []" and "\<not> sceneStarted w"
  shows "updateSceneFrames (replicate k False) w =
     (None, if k = 0 then w else w\<lparr>scene := Some (sc\<lparr>ready := False\<rparr>)\<rparr>)"
  using assms
proof (induction k arbitrary: w sc)
  case 0
  then show ?case by simp
next
  case (Suc k)
  let ?sc = "sc\<lparr>ready := False\<rparr>"
  let ?w = "answering False w"
  have s: "scene ?w = Some ?sc" "throwing ?sc = []" "\<not> sceneStarted ?w"
    using Suc.prems by (simp_all add: answering_def)
  have u: "updateScene ?w = (None, ?w)"
    using updateScene_effect [OF s(1) s(2)] s(3) by simp
  have "updateSceneFrames (replicate (Suc k) False) w = updateSceneFrames (replicate k False) ?w"
    by (simp add: u andThen_def)
  also have "\<dots> = (None, if k = 0 then ?w else ?w\<lparr>scene := Some (?sc\<lparr>ready := False\<rparr>)\<rparr>)"
    by (rule Suc.IH [OF s])
  also have "\<dots> = (None, w\<lparr>scene := Some (sc\<lparr>ready := False\<rparr>)\<rparr>)"
    using Suc.prems by (simp add: answering_def)
  finally show ?case by simp
qed

lemma frames_first_ready:
  assumes sc: "scene w = Some sc" and th: "throwing sc = []" and ns: "\<not> sceneStarted w"
  shows "updateSceneFrames (replicate k False @ True # rest) w =
     (None, w\<lparr>scene := Some (sc\<lparr>ready := last (True # rest)\<rparr>), sceneStarted := True,
              events := events w @ Call (ident sc) Start # EndLoading
                 # replicate (Suc (length rest)) (Call (ident sc) Update)\<rparr>)"
proof -
  define w1 where "w1 = (if k = 0 then w else w\<lparr>scene := Some (sc\<lparr>ready := False\<rparr>)\<rparr>)"
  let ?sc = "sc\<lparr>ready := True\<rparr>"
  let ?w = "answering True w1"
  have s: "scene ?w = Some ?sc" "throwing ?sc = []" "\<not> sceneStarted ?w" "ready ?sc"
    using sc th ns by (simp_all add: answering_def w1_def)
  let ?w2 = "?w\<lparr>sceneStarted := True,
          events := events ?w @ [Call (ident ?sc) Start, EndLoading, Call (ident ?sc) Update]\<rparr>"
  have u: "updateScene ?w = (None, ?w2)"
    using updateScene_effect [OF s(1) s(2)] s(3) s(4) by simp
  have s2: "scene ?w2 = Some ?sc" "sceneStarted ?w2" using s by simp_all
  have "updateSceneFrames (replicate k False @ True # rest) w
      = updateSceneFrames (True # rest) w1"
    by (simp add: frames_append frames_waiting [OF sc th ns] andThen_def w1_def)
  also have "\<dots> = updateSceneFrames rest ?w2"
    by (simp add: u andThen_def)
  also have "\<dots> = (None, ?w2\<lparr>scene := Some (?sc\<lparr>ready := last (ready ?sc # rest)\<rparr>),
              events := events ?w2 @ replicate (length rest) (Call (ident ?sc) Update)\<rparr>)"
    by (rule frames_started [OF s2(1) s(2) s2(2)])
  also have "\<dots> = (None, w\<lparr>scene := Some (sc\<lparr>ready := last (True # rest)\<rparr>), sceneStarted := True,
              events := events w @ Call (ident sc) Start # EndLoading
                 # replicate (Suc (length rest)) (Call (ident sc) Update)\<rparr>)"
    using sc by (simp add: answering_def w1_def replicate_append_same)
  finally show ?thesis .
qed

lemma updateMain_no_scene_update:
  "extends (\<lambda>ev. \<not> calls Start ev \<and> \<not> calls Update ev \<and> ev \<noteq> EndLoading) w
     (snd (updateMain ms t w))
   \<and> (\<not> sceneStarted w \<longrightarrow> \<not> sceneStarted (snd (updateMain ms t w)))"
proof -
  let ?Q = "\<lambda>ev. \<not> calls Start ev \<and> \<not> calls Update ev \<and> ev \<noteq> EndLoading"
  let ?P = "\<lambda>v. extends ?Q w v \<and> (\<not> sceneStarted w \<longrightarrow> \<not> sceneStarted v)"
  have eq: "?Q ev" if "earlyEvent ev" for ev
    using that by (cases ev) auto
  have tq: "?Q ev" if "tickEvent ev" for ev
    using that by (intro eq tickEvent_early)
  have t: "?P (snd (ticks ms t w))"
    using extends_mono [OF ticks_extends [of w ms t], of ?Q] tq ticks_not_started [of w ms t]
    by blast
  have r: "?P (snd (renderScene v))" if "?P v" for v
  proof -
    have "extends ?Q v (snd (renderScene v))"
      using extends_mono [OF renderScene_extends [of v], of ?Q] eq by blast
    with that show ?thesis by (auto intro: extends_trans simp: renderScene_started)
  qed
  have q: "?P (requestUpdate v)" if "?P v" for v
  proof -
    have "extends ?Q v (requestUpdate v)"
      by (simp add: requestUpdate_def extends_def emit_def)
    moreover have "sceneStarted (requestUpdate v) = sceneStarted v"
      by (simp add: requestUpdate_def emit_def)
    ultimately show ?thesis using that by (auto intro: extends_trans)
  qed
  have rq: "?P (snd (andThen (renderScene v) (\<lambda>w. (None, requestUpdate w))))" if "?P v" for v
    by (rule andThen_keeps [where P = ?P]) (simp_all add: r that q)
  have "?P (snd (updateMain ms t w))"
    unfolding updateMain_ticks
    by (rule andThen_keeps [where P = ?P]) (simp_all add: t rq)
  then show ?thesis by simp
qed

text \<open>
  C2, as the code has it. \<^verbatim>\<open>updateScene\<close>, when it is called on a current scene whose
  methods return: a scene not yet started whose \<^verbatim>\<open>isReady()\<close> holds is started, the
  started flag is set, loading ends and, the flag now being set, the scene is updated in
  the same call; a started scene is updated; a scene not ready is left alone. Called
  frame after frame on a scene that is not ready for \<open>k\<close> frames and ready in the next,
  it calls \<^verbatim>\<open>start()\<close> exactly once, in that frame, and \<^verbatim>\<open>update()\<close> in that frame and
  every later one. But no frame calls it: \<^verbatim>\<open>updateMain\<close> calls neither \<^verbatim>\<open>start()\<close> nor
  \<^verbatim>\<open>update()\<close> and never sets the started flag.
\<close>

theorem updateScene_starts_once_never_run:
  assumes "scene w = Some sc" and "throwing sc = []"
  shows "updateScene w =
           (None,
            if sceneStarted w then w\<lparr>events := events w @ [Call (ident sc) Update]\<rparr>
            else if ready sc then
              w\<lparr>sceneStarted := True,
                events := events w
                  @ [Call (ident sc) Start, EndLoading, Call (ident sc) Update]\<rparr>
            else w)
       \<and> (\<not> sceneStarted w \<longrightarrow>
            updateSceneFrames (replicate k False) w =
              (None, if k = 0 then w else w\<lparr>scene := Some (sc\<lparr>ready := False\<rparr>)\<rparr>)
            \<and> updateSceneFrames (replicate k False @ True # rest) w =
                (None, w\<lparr>scene := Some (sc\<lparr>ready := last (True # rest)\<rparr>),
                         sceneStarted := True,
                         events := events w @ Call (ident sc) Start # EndLoading
                           # replicate (Suc (length rest)) (Call (ident sc) Update)\<rparr>))
       \<and> (\<exists>new. events (snd (updateMain ms t w)) = events w @ new
              \<and> (\<forall>ev\<in>set new. \<not> calls Start ev \<and> \<not> calls Update ev))
       \<and> (\<not> sceneStarted w \<longrightarrow> \<not> sceneStarted (snd (updateMain ms t w)))"
proof -
  have a: "updateScene w =
           (None,
            if sceneStarted w then w\<lparr>events := events w @ [Call (ident sc) Update]\<rparr>
            else if ready sc then
              w\<lparr>sceneStarted := True,
                events := events w
                  @ [Call (ident sc) Start, EndLoading, Call (ident sc) Update]\<rparr>
            else w)"
    by (rule updateScene_effect [OF assms])
  have b: "updateSceneFrames (replicate k False) w =
              (None, if k = 0 then w else w\<lparr>scene := Some (sc\<lparr>ready := False\<rparr>)\<rparr>)"
    if "\<not> sceneStarted w"
    by (rule frames_waiting [OF assms that])
  have c: "updateSceneFrames (replicate k False @ True # rest) w =
                (None, w\<lparr>scene := Some (sc\<lparr>ready := last (True # rest)\<rparr>),
                         sceneStarted := True,
                         events := events w @ Call (ident sc) Start # EndLoading
                           # replicate (Suc (length rest)) (Call (ident sc) Update)\<rparr>)"
    if "\<not> sceneStarted w"
    by (rule frames_first_ready [OF assms that])
  have d: "\<exists>new. events (snd (updateMain ms t w)) = events w @ new
              \<and> (\<forall>ev\<in>set new. \<not> calls Start ev \<and> \<not> calls Update ev)"
    using updateMain_no_scene_update [of w ms t] by (auto simp: extends_def)
  have e: "\<not> sceneStarted w \<longrightarrow> \<not> sceneStarted (snd (updateMain ms t w))"
    using updateMain_no_scene_update [of w ms t] by simp
  from a b c d e show ?thesis by blast
qed

text \<open>
  C2 on the loading scene: not ready for three frames, ready in the fourth and fifth.
  \<^verbatim>\<open>start()\<close> is called once, in the fourth.
\<close>

theorem updateScene_starts_once_never_run_witness:
  "updateSceneFrames [False, False, False] ((initial 0)\<lparr>scene := Some loading\<rparr>)
     = (None, (initial 0)\<lparr>scene := Some loading\<rparr>)
   \<and> updateSceneFrames [False, False, False, True, True] ((initial 0)\<lparr>scene := Some loading\<rparr>)
     = (None, (initial 0)\<lparr>scene := Some (loading\<lparr>ready := True\<rparr>), sceneStarted := True,
                events := [Call 5 Start, EndLoading, Call 5 Update, Call 5 Update]\<rparr>)
   \<and> \<not> sceneStarted (snd (updateMain False 20 ((initial 0)\<lparr>scene := Some loading\<rparr>)))"
  using updateScene_starts_once_never_run
      [of "(initial 0)\<lparr>scene := Some loading\<rparr>" loading 3 "[True]" False 20]
  by (simp add: example_defs numeral_3_eq_3)

text \<open>
  C2 as the specification words it fails. A frame of the run loop on a current scene that
  is ready and not yet started runs one fixed step, shows the loading hook and requests
  the next frame; \<^verbatim>\<open>start()\<close> is not called and the started flag stays false.
\<close>

theorem updateScene_per_frame_counterexample:
  "update False 20 ((initial 0)\<lparr>scene := Some menu\<rparr>) =
     (initial 20)\<lparr>scene := Some menu, accumulator := 1 / 300,
       events := [GraphicsTickStart, InputUpdate, UpdateLoading, RequestAnimationFrame,
                  GraphicsTickEnd]\<rparr>
   \<and> ready menu
   \<and> \<not> sceneStarted (update False 20 ((initial 0)\<lparr>scene := Some menu\<rparr>))"
  by (simp add: update_def updateTry_def updateMain_def drain.simps changeScene_def
      isSceneChanging_def frame_defs collab_defs example_defs deltaTime_def Let_def)

section \<open>Exit\<close>

text \<open>
  C6, as the code has it. After \<^verbatim>\<open>exit()\<close> has returned \<^verbatim>\<open>_exiting\<close> is true, and
  \<^verbatim>\<open>goto\<close>, \<^verbatim>\<open>push\<close>, \<^verbatim>\<open>pop\<close>, \<^verbatim>\<open>exit\<close>, \<^verbatim>\<open>changeScene\<close> and \<^verbatim>\<open>update\<close> keep it
  true; \<^verbatim>\<open>goto\<close> and \<^verbatim>\<open>push\<close> never write \<^verbatim>\<open>_nextScene\<close>. Every transition check
  made while exiting that is not held back by a busy scene and in which no scene call
  throws ends with \<^verbatim>\<open>window.close()\<close> and leaves \<^verbatim>\<open>_stopped\<close> as it was; a check made
  while not exiting never calls \<^verbatim>\<open>window.close()\<close>. The manager does not halt its own
  loop: a frame that completes on a state not stopped requests the next frame and is
  still not stopped.
\<close>

theorem exit_requests_window_close:
  "(fst (exit w) = None \<longrightarrow> exiting (snd (exit w)))
   \<and> (exiting w \<longrightarrow>
        exiting (snd (goto c w)) \<and> exiting (snd (push c w)) \<and> exiting (snd (pop w))
        \<and> exiting (snd (exit w)) \<and> exiting (snd (changeScene w)) \<and> exiting (update ms t w))
   \<and> nextScene (snd (goto c w)) = nextScene w
   \<and> nextScene (snd (push c w)) = nextScene w
   \<and> (exiting w \<and> isCurrentSceneBusy w = Inr False \<and> fst (changeScene w) = None \<longrightarrow>
        (\<exists>pre. events (snd (changeScene w)) = events w @ pre @ [WindowClose])
        \<and> stopped (snd (changeScene w)) = stopped w)
   \<and> (\<not> exiting w \<longrightarrow>
        (\<exists>new. events (snd (changeScene w)) = events w @ new \<and> WindowClose \<notin> set new))
   \<and> (\<not> stopped w \<and> fst (updateTry ms t w) = None \<longrightarrow>
        \<not> stopped (update ms t w)
        \<and> (\<exists>pre. events (update ms t w)
              = events w @ pre @ [RequestAnimationFrame, GraphicsTickEnd]))"
proof -
  have a: "fst (exit w) = None \<longrightarrow> exiting (snd (exit w))"
    by (simp add: exit_def andThen_def goto_effect split: option.splits)
  have b: "exiting (snd (goto c w)) \<and> exiting (snd (push c w)) \<and> exiting (snd (pop w))
        \<and> exiting (snd (exit w)) \<and> exiting (snd (changeScene w)) \<and> exiting (update ms t w)"
    if "exiting w"
    using that
    by (simp add: goto_effect push_def pop_def exit_def andThen_def changeScene_exiting
        update_exiting split: option.splits)
  have c: "nextScene (snd (goto c w)) = nextScene w \<and> nextScene (snd (push c w)) = nextScene w"
    by (simp add: goto_effect push_def split: option.splits)
  have d: "(\<exists>pre. events (snd (changeScene w)) = events w @ pre @ [WindowClose])
        \<and> stopped (snd (changeScene w)) = stopped w"
    if "exiting w" and "isCurrentSceneBusy w = Inr False" and "fst (changeScene w) = None"
    using that
    by (auto simp: changeScene_def isSceneChanging_def andThen_def invoke_effect collab_defs
        Let_def split: option.splits)
  have f: "\<exists>new. events (snd (changeScene w)) = events w @ new \<and> WindowClose \<notin> set new"
    if "\<not> exiting w"
    using that
    by (auto simp: changeScene_def andThen_def invoke_effect collab_defs Let_def
        split: option.splits sum.splits bool.splits)
  have e: "\<not> stopped (update ms t w)
        \<and> (\<exists>pre. events (update ms t w)
              = events w @ pre @ [RequestAnimationFrame, GraphicsTickEnd])"
    if ns: "\<not> stopped w" and ok: "fst (updateTry ms t w) = None"
  proof -
    from ok obtain y where y: "beforeRequest ms t w = (None, y)"
      and u: "updateTry ms t w = tickEnd (requestUpdate y)"
      by (cases rule: updateTry_cases [of ms t w]) auto
    have sy: "\<not> stopped y"
      using beforeRequest_stopped [of ms t w] y ns by simp
    have "update ms t w = snd (tickEnd (requestUpdate y))"
      using ok u by (cases "tickEnd (requestUpdate y)") (simp add: update_def)
    then have v: "update ms t w = emit GraphicsTickEnd (emit RequestAnimationFrame y)"
      using sy by (simp add: tickEnd_state requestUpdate_def)
    obtain pre where "events y = events w @ pre"
      using beforeRequest_extends [of w ms t] y by (auto simp: extends_def)
    with v sy show ?thesis by (simp add: emit_def)
  qed
  from a b c d e f show ?thesis by blast
qed

text \<open>C6 from the initial state: exit, then one transition check.\<close>

theorem exit_requests_window_close_witness:
  "exit (initial 0) = (None, (initial 0)\<lparr>exiting := True\<rparr>)
   \<and> exiting (snd (goto (Some 10) (snd (exit (initial 0)))))
   \<and> nextScene (snd (goto (Some 10) (snd (exit (initial 0))))) = None
   \<and> changeScene (snd (exit (initial 0)))
       = (None, (initial 0)\<lparr>exiting := True, events := [WindowClose]\<rparr>)"
proof -
  have x: "exit (initial 0) = (None, (initial 0)\<lparr>exiting := True\<rparr>)"
    by (simp add: exit_def andThen_def goto_effect initial_def)
  have cs: "changeScene ((initial 0)\<lparr>exiting := True\<rparr>)
      = (None, (initial 0)\<lparr>exiting := True, events := [WindowClose]\<rparr>)"
    by (simp add: changeScene_def isSceneChanging_def isCurrentSceneBusy_def andThen_def
        collab_defs initial_def)
  from exit_requests_window_close [of "(initial 0)\<lparr>exiting := True\<rparr>" "Some 10"] x cs
  show ?thesis by (simp add: initial_def)
qed

text \<open>
  C6 as the specification words it fails. The frame that applies the exit transition
  calls \<^verbatim>\<open>window.close()\<close> and then requests the next frame, with \<^verbatim>\<open>_stopped\<close> still
  false; the frame after it performs the transition and the request again.
\<close>

theorem exit_not_terminal_counterexample:
  "update False 20 (snd (exit (initial 0))) =
     (initial 20)\<lparr>exiting := True, accumulator := 1 / 300,
       events := [GraphicsTickStart, InputUpdate, WindowClose, RequestAnimationFrame,
                  GraphicsTickEnd]\<rparr>
   \<and> \<not> stopped (update False 20 (snd (exit (initial 0))))
   \<and> events (update False 40 (update False 20 (snd (exit (initial 0))))) =
       [GraphicsTickStart, InputUpdate, WindowClose, RequestAnimationFrame, GraphicsTickEnd,
        GraphicsTickStart, InputUpdate, WindowClose, RequestAnimationFrame, GraphicsTickEnd]"
  by (simp add: update_def updateTry_def updateMain_def drain.simps changeScene_def
      isSceneChanging_def isCurrentSceneBusy_def renderScene_def isCurrentSceneStarted_def
      exit_def goto_effect frame_defs collab_defs example_defs deltaTime_def Let_def)

end
